theory Spec2Isabelle
  imports Complex_Main "HOL-Library.AList" "HOL-Library.Multiset"
begin

section \<open>The quiz room engine\<close>

text \<open>
  A shallow embedding of the socket handlers of \<^verbatim>\<open>initGameSockets\<close> and of the two
  helpers \<^verbatim>\<open>endQuestion\<close> and \<^verbatim>\<open>makeLeaderboard\<close>.

  Conventions of the embedding.
  \<^item> A JavaScript \<^verbatim>\<open>Map\<close> is an association list in insertion order: \<^verbatim>\<open>get\<close> is
    \<open>map_of\<close>, \<^verbatim>\<open>set\<close> is \<open>AList.update\<close> (an existing key keeps its position, a new key
    goes last), \<^verbatim>\<open>delete\<close> is \<open>AList.delete\<close>, \<^verbatim>\<open>values()\<close> is \<open>map snd\<close>.
  \<^item> JavaScript numbers that hold times, indices and counters are integers; their sums,
    differences and \<^verbatim>\<open>Math.floor(timeLeftMs / 50)\<close> are exact in doubles below \<open>2^53\<close>
    and are written with the exact operations.
  \<^item> A score is an IEEE double, modelled by the rational number it denotes. The quotient
    \<^verbatim>\<open>1000 / length\<close>, its product with the number of correct choices and the sum
    \<^verbatim>\<open>player.score += scoreEarned\<close> are rounded to the nearest double, ties to even
    (\<open>double_div\<close>, \<open>double_mul\<close>, \<open>double_add\<close>). A result beyond the range of doubles
    (\<^verbatim>\<open>Infinity\<close>) is not modelled.
  \<^item> The payloads have the shapes the handlers destructure: a quiz is an object with an
    array \<^verbatim>\<open>questions\<close> of question objects, \<^verbatim>\<open>correctIndices\<close> is an array of integers
    or missing, and the entries of \<^verbatim>\<open>choiceIndices\<close> convert to integers.
  \<^item> The module-level \<^verbatim>\<open>rooms\<close> table is passed to every handler and returned by it. What
    a handler sends, subscribes or schedules is returned as a list of effects, in program
    order. \<^verbatim>\<open>console.log\<close> is left out.
  \<^item> \<^verbatim>\<open>Date.now()\<close>, the result of \<^verbatim>\<open>jwt.verify\<close> (\<open>None\<close> when it throws) and the room
    code drawn from \<^verbatim>\<open>Math.random()\<close> are arguments of the handlers.
  \<^item> Reading a property of \<^verbatim>\<open>undefined\<close> throws a \<^verbatim>\<open>TypeError\<close> that no handler
    catches: the outcome records it in \<open>fault\<close>, with the table as mutated up to the throw.
\<close>

subsection \<open>Data\<close>

type_synonym socket_id = string
type_synonym room_code = string

record player =
  name :: string
  score :: rat
  answered :: bool

text \<open>The field \<^verbatim>\<open>text\<close> of a question is \<open>qtext\<close> here. A missing \<^verbatim>\<open>correctIndices\<close> or
  \<^verbatim>\<open>timeLimitSec\<close> is \<open>None\<close>.\<close>

record question =
  qtext :: string
  choices :: "string list"
  correctIndices :: "int list option"
  timeLimitSec :: "int option"

record quiz =
  questions :: "question list"

record room =
  hostId :: socket_id
  hostUserId :: string
  quiz :: quiz
  players :: "(socket_id \<times> player) list"
  currentQ :: int
  endsAt :: "int option"

text \<open>The payload of a verified token; its field \<^verbatim>\<open>id\<close> is \<open>user_id\<close> here.\<close>

record decoded =
  user_id :: string
  role :: string

text \<open>\<^verbatim>\<open>choiceIndices\<close> is an array or a single value, already read as numbers.\<close>

datatype choice_payload = Indices "int list" | Index int

type_synonym leaderboard = "(string \<times> rat) list"

datatype message =
    ErrorMsg string
  | HostRoomCreated room_code
  | HostPlayersUpdate "player list"
  | LobbyUpdate nat
  | QuestionStart int string "string list" int "bool option"
  | GameOver leaderboard
  | PlayerAnswerResult bool
  | HostLeaderboard leaderboard
  | GameClosed
  | QuestionEnd "int list option" leaderboard

text \<open>\<open>Emit t m\<close> is \<^verbatim>\<open>io.to(t).emit(m)\<close>, where \<open>t\<close> is a socket id or a room code;
  \<open>Join s c\<close> is \<^verbatim>\<open>socket.join(c)\<close>; \<open>SetTimeout d c\<close> is
  \<^verbatim>\<open>setTimeout(() => endQuestion(io, c), d)\<close>.\<close>

datatype effect = Emit string message | Join socket_id room_code | SetTimeout int room_code

datatype error = TypeError

type_synonym registry = "(room_code \<times> room) list"

record outcome =
  fault :: "error option"
  rooms :: registry
  effects :: "effect list"

definition silent :: "registry \<Rightarrow> outcome" where
  "silent rs = \<lparr>fault = None, rooms = rs, effects = []\<rparr>"

subsection \<open>Library functions of the language\<close>

text \<open>\<^verbatim>\<open>xs[i]\<close>: \<^verbatim>\<open>undefined\<close> outside the array.\<close>

definition at_index :: "'a list \<Rightarrow> int \<Rightarrow> 'a option" where
  "at_index xs i = (if 0 \<le> i \<and> i < int (length xs) then Some (xs ! nat i) else None)"

text \<open>\<^verbatim>\<open>Array.prototype.sort\<close> with a comparator is a stable sort (ECMAScript 2019). It is
  modelled by the stable insertion sort; \<open>cmp a b \<le> 0\<close> keeps \<open>a\<close> before \<open>b\<close>.\<close>

fun insert_sorted :: "('a \<Rightarrow> 'a \<Rightarrow> 'b::{zero, linorder}) \<Rightarrow> 'a \<Rightarrow> 'a list \<Rightarrow> 'a list" where
  "insert_sorted cmp x [] = [x]"
| "insert_sorted cmp x (y # ys) =
     (if cmp x y \<le> 0 then x # y # ys else y # insert_sorted cmp x ys)"

definition js_sort :: "('a \<Rightarrow> 'a \<Rightarrow> 'b::{zero, linorder}) \<Rightarrow> 'a list \<Rightarrow> 'a list" where
  "js_sort cmp xs = foldr (insert_sorted cmp) xs []"

text \<open>IEEE 754 binary64 arithmetic. \<open>bit_length a\<close> is the number of binary digits of a
  positive integer; \<open>binade x\<close> is the exponent \<open>e\<close> with \<open>2^e \<le> x < 2^(e+1)\<close> of a positive
  rational; \<open>to_double x\<close> is the double nearest to \<open>x\<close>: a multiple of \<open>2^(e-52)\<close>, or of
  \<open>2^(-1074)\<close> in the subnormal range, with ties to the even multiple. Division,
  multiplication and addition of doubles return the rounded exact result.\<close>

function bit_length :: "int \<Rightarrow> nat" where
  "bit_length a = (if a \<le> 0 then 0 else Suc (bit_length (a div 2)))"
  by pat_completeness auto
termination
  by (relation "measure nat") auto

declare bit_length.simps [simp del]

definition binade :: "rat \<Rightarrow> int" where
  "binade x =
     (let (a, b) = quotient_of x;
          d = int (bit_length a) - int (bit_length b)
      in if 2 powi d \<le> x then d else d - 1)"

definition round_half_even :: "rat \<Rightarrow> int" where
  "round_half_even r =
     (let f = \<lfloor>r\<rfloor>; d = r - of_int f
      in if d < 1 / 2 then f else if 1 / 2 < d then f + 1 else if even f then f else f + 1)"

definition to_double :: "rat \<Rightarrow> rat" where
  "to_double x =
     (if x = 0 then 0
      else (let s = max (binade \<bar>x\<bar> - 52) (- 1074)
            in sgn x * of_int (round_half_even (\<bar>x\<bar> / 2 powi s)) * 2 powi s))"

definition double_div :: "rat \<Rightarrow> rat \<Rightarrow> rat" where
  "double_div a b = to_double (a / b)"

definition double_mul :: "rat \<Rightarrow> rat \<Rightarrow> rat" where
  "double_mul a b = to_double (a * b)"

definition double_add :: "rat \<Rightarrow> rat \<Rightarrow> rat" where
  "double_add a b = to_double (a + b)"

subsection \<open>makeLeaderboard and endQuestion\<close>

text \<open>The comparator \<^verbatim>\<open>(a, b) => b.score - a.score\<close> is written with the exact difference:
  the difference of two doubles and its rounding have the same sign, and the sort reads
  the sign only.\<close>

definition makeLeaderboard :: "room \<Rightarrow> leaderboard" where
  "makeLeaderboard room =
     js_sort (\<lambda>a b. snd b - snd a) (map (\<lambda>p. (name p, score p)) (map snd (players room)))"

definition endQuestion :: "room_code \<Rightarrow> registry \<Rightarrow> outcome" where
  "endQuestion roomCode rs =
     (case map_of rs roomCode of
        None \<Rightarrow> silent rs
      | Some room \<Rightarrow>
          (case at_index (questions (quiz room)) (currentQ room) of
             None \<Rightarrow> \<lparr>fault = Some TypeError, rooms = rs, effects = []\<rparr>
           | Some q \<Rightarrow>
               \<lparr>fault = None, rooms = rs,
                effects = [Emit roomCode (QuestionEnd (correctIndices q) (makeLeaderboard room))]\<rparr>))"

subsection \<open>The handlers\<close>

definition host_create_room ::
  "socket_id \<Rightarrow> quiz \<Rightarrow> decoded option \<Rightarrow> room_code \<Rightarrow> registry \<Rightarrow> outcome" where
  "host_create_room sid qz verified roomCode rs =
     (case verified of
        None \<Rightarrow>
          \<lparr>fault = None, rooms = rs,
           effects = [Emit sid (ErrorMsg ''Invalid or expired token.'')]\<rparr>
      | Some d \<Rightarrow>
          if role d \<noteq> ''host'' then
            \<lparr>fault = None, rooms = rs,
             effects = [Emit sid (ErrorMsg ''Unauthorized: Only hosts can create rooms.'')]\<rparr>
          else
            \<lparr>fault = None,
             rooms = AList.update roomCode
               \<lparr>hostId = sid, hostUserId = user_id d, quiz = qz, players = [],
                currentQ = - 1, endsAt = None\<rparr> rs,
             effects = [Join sid roomCode, Emit sid (HostRoomCreated roomCode)]\<rparr>)"

definition player_join :: "socket_id \<Rightarrow> room_code \<Rightarrow> string \<Rightarrow> registry \<Rightarrow> outcome" where
  "player_join sid roomCode nm rs =
     (case map_of rs roomCode of
        None \<Rightarrow> \<lparr>fault = None, rooms = rs, effects = [Emit sid (ErrorMsg ''Room not found'')]\<rparr>
      | Some room \<Rightarrow>
          (let room' = room\<lparr>players :=
                 AList.update sid \<lparr>name = nm, score = 0, answered = False\<rparr> (players room)\<rparr>
           in \<lparr>fault = None, rooms = AList.update roomCode room' rs,
               effects = [Join sid roomCode,
                          Emit roomCode (HostPlayersUpdate (map snd (players room'))),
                          Emit roomCode (LobbyUpdate (length (players room')))]\<rparr>))"

text \<open>\<^verbatim>\<open>q.timeLimitSec || 20\<close>: a missing or zero limit is 20 seconds.\<close>

definition limitSec :: "question \<Rightarrow> int" where
  "limitSec q = (case timeLimitSec q of None \<Rightarrow> 20 | Some t \<Rightarrow> if t = 0 then 20 else t)"

text \<open>\<^verbatim>\<open>q.correctIndices && q.correctIndices.length > 1\<close>: \<^verbatim>\<open>undefined\<close> when the question
  has no \<^verbatim>\<open>correctIndices\<close>.\<close>

definition hasMultipleAnswers :: "question \<Rightarrow> bool option" where
  "hasMultipleAnswers q =
     (case correctIndices q of None \<Rightarrow> None | Some ci \<Rightarrow> Some (length ci > 1))"

definition host_next_question :: "socket_id \<Rightarrow> room_code \<Rightarrow> int \<Rightarrow> registry \<Rightarrow> outcome" where
  "host_next_question sid roomCode now rs =
     (case map_of rs roomCode of
        None \<Rightarrow> silent rs
      | Some room \<Rightarrow>
          if sid \<noteq> hostId room then silent rs
          else
            (let room1 = room\<lparr>currentQ := currentQ room + 1\<rparr> in
             if currentQ room1 \<ge> int (length (questions (quiz room1))) then
               \<lparr>fault = None, rooms = AList.update roomCode room1 rs,
                effects = [Emit roomCode (GameOver (makeLeaderboard room1))]\<rparr>
             else
               (let room2 = room1\<lparr>players :=
                      map (\<lambda>(k, p). (k, p\<lparr>answered := False\<rparr>)) (players room1)\<rparr>
                in case at_index (questions (quiz room2)) (currentQ room2) of
                     None \<Rightarrow>
                       \<lparr>fault = Some TypeError, rooms = AList.update roomCode room2 rs,
                        effects = []\<rparr>
                   | Some q \<Rightarrow>
                       (let room3 = room2\<lparr>endsAt := Some (now + limitSec q * 1000)\<rparr>
                        in \<lparr>fault = None, rooms = AList.update roomCode room3 rs,
                            effects =
                              [Emit roomCode
                                 (QuestionStart (currentQ room3) (qtext q) (choices q)
                                    (now + limitSec q * 1000) (hasMultipleAnswers q)),
                               SetTimeout (limitSec q * 1000 + 200) roomCode]\<rparr>))))"

text \<open>The points of one submission: lines 105 to 121 of the handler, as a function of the
  question, the player's answers and the time left.\<close>

definition scoreEarned :: "question \<Rightarrow> int list \<Rightarrow> int \<Rightarrow> rat" where
  "scoreEarned q playerAnswers timeLeftMs =
     (case correctIndices q of
        None \<Rightarrow> 0
      | Some ci \<Rightarrow>
          if length ci > 0 then
            (let correctChoices = filter (\<lambda>idx. idx \<in> set ci) playerAnswers;
                 incorrectChoices = filter (\<lambda>idx. idx \<notin> set ci) playerAnswers;
                 isFullyCorrect =
                   (length correctChoices = length ci \<and> length incorrectChoices = 0)
             in if isFullyCorrect then
                  1000 + of_int \<lfloor>(of_int timeLeftMs :: rat) / 50\<rfloor>
                else if length correctChoices > 0 then
                  double_mul (double_div 1000 (of_nat (length ci)))
                    (of_nat (length correctChoices))
                else 0)
          else 0)"

definition playerAnswers :: "choice_payload \<Rightarrow> int list" where
  "playerAnswers choiceIndices =
     (case choiceIndices of
        Indices xs \<Rightarrow> js_sort (\<lambda>a b. a - b) xs
      | Index x \<Rightarrow> [x])"

text \<open>\<^verbatim>\<open>Math.max(0, room.endsAt - Date.now())\<close>; \<^verbatim>\<open>null\<close> counts as 0 in the difference.\<close>

definition timeLeftMs :: "room \<Rightarrow> int \<Rightarrow> int" where
  "timeLeftMs room now = max 0 ((case endsAt room of None \<Rightarrow> 0 | Some e \<Rightarrow> e) - now)"

definition player_answer ::
  "socket_id \<Rightarrow> room_code \<Rightarrow> choice_payload \<Rightarrow> int \<Rightarrow> registry \<Rightarrow> outcome" where
  "player_answer sid roomCode choiceIndices now rs =
     (case map_of rs roomCode of
        None \<Rightarrow> silent rs
      | Some room \<Rightarrow>
          (case map_of (players room) sid of
             None \<Rightarrow> silent rs
           | Some p \<Rightarrow>
               if answered p then silent rs
               else
                 (let p1 = p\<lparr>answered := True\<rparr> in
                  case at_index (questions (quiz room)) (currentQ room) of
                    None \<Rightarrow>
                      \<lparr>fault = Some TypeError,
                       rooms = AList.update roomCode
                         (room\<lparr>players := AList.update sid p1 (players room)\<rparr>) rs,
                       effects = []\<rparr>
                  | Some q \<Rightarrow>
                      (let earned =
                             scoreEarned q (playerAnswers choiceIndices) (timeLeftMs room now);
                           p2 = p1\<lparr>score := double_add (score p1) earned\<rparr>;
                           room' = room\<lparr>players := AList.update sid p2 (players room)\<rparr>
                       in \<lparr>fault = None, rooms = AList.update roomCode room' rs,
                           effects = [Emit sid (PlayerAnswerResult (earned > 0)),
                                      Emit (hostId room')
                                        (HostLeaderboard (makeLeaderboard room'))]\<rparr>))))"

text \<open>The loop over \<^verbatim>\<open>rooms.entries()\<close>: an entry whose host disconnects is dropped, an
  entry that tracks the socket as a player loses that player, any other entry stays.\<close>

fun disconnect_loop :: "socket_id \<Rightarrow> registry \<Rightarrow> registry \<times> effect list" where
  "disconnect_loop sid [] = ([], [])"
| "disconnect_loop sid ((code, room) # rest) =
     (let (rs', es) = disconnect_loop sid rest in
      if hostId room = sid then (rs', Emit code GameClosed # es)
      else if map_of (players room) sid \<noteq> None then
        (let room' = room\<lparr>players := AList.delete sid (players room)\<rparr>
         in ((code, room') # rs',
             Emit code (HostPlayersUpdate (map snd (players room'))) # es))
      else ((code, room) # rs', es))"

definition disconnect :: "socket_id \<Rightarrow> registry \<Rightarrow> outcome" where
  "disconnect sid rs =
     (let (rs', es) = disconnect_loop sid rs in \<lparr>fault = None, rooms = rs', effects = es\<rparr>)"

subsection \<open>Events and runs\<close>

datatype event =
    HostCreateRoom socket_id quiz "decoded option" room_code
  | PlayerJoin socket_id room_code string
  | HostNextQuestion socket_id room_code int
  | PlayerAnswer socket_id room_code choice_payload int
  | Disconnect socket_id
  | TimerFire room_code

fun step :: "event \<Rightarrow> registry \<Rightarrow> outcome" where
  "step (HostCreateRoom sid qz verified roomCode) rs = host_create_room sid qz verified roomCode rs"
| "step (PlayerJoin sid roomCode nm) rs = player_join sid roomCode nm rs"
| "step (HostNextQuestion sid roomCode now) rs = host_next_question sid roomCode now rs"
| "step (PlayerAnswer sid roomCode choiceIndices now) rs =
     player_answer sid roomCode choiceIndices now rs"
| "step (Disconnect sid) rs = disconnect sid rs"
| "step (TimerFire roomCode) rs = endQuestion roomCode rs"

text \<open>A run handles the events one after the other, each on the table the previous one
  left (also after a fault: a run that ends at the first fault is a prefix of this one).
  \<open>run\<close> is the final table, \<open>trace\<close> the effects of all the events in order.\<close>

fun run :: "event list \<Rightarrow> registry \<Rightarrow> registry" where
  "run [] rs = rs"
| "run (e # es) rs = run es (rooms (step e rs))"

fun trace :: "event list \<Rightarrow> registry \<Rightarrow> effect list" where
  "trace [] rs = []"
| "trace (e # es) rs = effects (step e rs) @ trace es (rooms (step e rs))"

text \<open>Predicates on events and effects, for the statements about runs.
  \<open>creates c e\<close>: the event is a \<^verbatim>\<open>host:create_room\<close> that passes the token check and
  draws the code \<open>c\<close>, so that it stores a new room under \<open>c\<close>.
  \<open>advances c h e\<close>: the event is a \<^verbatim>\<open>host:next_question\<close> for the code \<open>c\<close> from the
  socket \<open>h\<close>.
  \<open>is_question_start c x\<close>: the effect is a \<^verbatim>\<open>question:start\<close> sent to the group \<open>c\<close>.
  \<open>finished c rs\<close>: the table has no room under \<open>c\<close>, or one whose index is past its last
  question.\<close>

fun creates :: "room_code \<Rightarrow> event \<Rightarrow> bool" where
  "creates c (HostCreateRoom sid qz (Some d) roomCode) = (roomCode = c \<and> role d = ''host'')"
| "creates c _ = False"

fun advances :: "room_code \<Rightarrow> socket_id \<Rightarrow> event \<Rightarrow> bool" where
  "advances c h (HostNextQuestion sid roomCode now) = (roomCode = c \<and> sid = h)"
| "advances c h _ = False"

fun is_question_start :: "room_code \<Rightarrow> effect \<Rightarrow> bool" where
  "is_question_start c (Emit t (QuestionStart i tx ch e m)) = (t = c)"
| "is_question_start c _ = False"

definition finished :: "room_code \<Rightarrow> registry \<Rightarrow> bool" where
  "finished c rs =
     (case map_of rs c of
        None \<Rightarrow> True
      | Some room \<Rightarrow> currentQ room \<ge> int (length (questions (quiz room))))"

subsection \<open>Example data\<close>

text \<open>A quiz of two questions, a token of a host, and a table with one room in which the
  first question is open: Ann has answered it, Bob has not.\<close>

definition demo_q1 :: question where
  "demo_q1 = \<lparr>qtext = ''One?'', choices = [''a'', ''b''], correctIndices = Some [1],
     timeLimitSec = Some 20\<rparr>"

definition demo_q2 :: question where
  "demo_q2 = \<lparr>qtext = ''Two?'', choices = [''a'', ''b'', ''c''], correctIndices = Some [0, 2],
     timeLimitSec = None\<rparr>"

definition demo_quiz :: quiz where
  "demo_quiz = \<lparr>questions = [demo_q1, demo_q2]\<rparr>"

definition demo_token :: decoded where
  "demo_token = \<lparr>user_id = ''u1'', role = ''host''\<rparr>"

text \<open>The lobby: the room is created, Ann has joined, no question has started.\<close>

definition demo_lobby_room :: room where
  "demo_lobby_room = \<lparr>hostId = ''h1'', hostUserId = ''u1'', quiz = demo_quiz,
     players = [(''s1'', \<lparr>name = ''Ann'', score = 0, answered = False\<rparr>)],
     currentQ = - 1, endsAt = None\<rparr>"

definition demo_lobby :: registry where
  "demo_lobby = [(''AB12'', demo_lobby_room)]"

definition demo_room :: room where
  "demo_room = \<lparr>hostId = ''h1'', hostUserId = ''u1'', quiz = demo_quiz,
     players = [(''s1'', \<lparr>name = ''Ann'', score = 1100, answered = True\<rparr>),
                (''s2'', \<lparr>name = ''Bob'', score = 0, answered = False\<rparr>)],
     currentQ = 0, endsAt = Some 20000\<rparr>"

definition demo_rooms :: registry where
  "demo_rooms = [(''AB12'', demo_room)]"

text \<open>The same room later: the second question, with the correct choices 0 and 2, is open
  until 40000 and nobody has answered it.\<close>

definition demo_room2 :: room where
  "demo_room2 = \<lparr>hostId = ''h1'', hostUserId = ''u1'', quiz = demo_quiz,
     players = [(''s1'', \<lparr>name = ''Ann'', score = 1100, answered = False\<rparr>),
                (''s2'', \<lparr>name = ''Bob'', score = 0, answered = False\<rparr>)],
     currentQ = 1, endsAt = Some 40000\<rparr>"

definition demo_rooms2 :: registry where
  "demo_rooms2 = [(''AB12'', demo_room2)]"

section \<open>Properties\<close>

subsection \<open>The sort\<close>

lemma mset_insert_sorted: "mset (insert_sorted cmp x ys) = add_mset x (mset ys)"
  by (induction ys) auto

lemma mset_js_sort: "mset (js_sort cmp xs) = mset xs"
  unfolding js_sort_def by (induction xs) (auto simp: mset_insert_sorted)

lemma set_js_sort: "set (js_sort cmp xs) = set xs"
  using mset_js_sort [of cmp xs] by (metis set_mset_mset)

lemma distinct_js_sort: "distinct (js_sort cmp xs) = distinct xs"
  using mset_js_sort [of cmp xs] by (metis mset_eq_imp_distinct_iff)

lemma length_filter_js_sort: "length (filter P (js_sort cmp xs)) = length (filter P xs)"
proof -
  have "mset (filter P (js_sort cmp xs)) = mset (filter P xs)"
    by (simp add: mset_js_sort)
  then show ?thesis by (metis size_mset)
qed

lemma filter_js_sort_empty: "filter P (js_sort cmp xs) = [] \<longleftrightarrow> filter P xs = []"
  by (simp add: filter_empty_conv set_js_sort)

lemma set_insert_sorted: "set (insert_sorted cmp x ys) = insert x (set ys)"
  by (induction ys) auto

text \<open>With the comparator of the leaderboard, \<^verbatim>\<open>(a, b) => b.score - a.score\<close>, an insertion
  keeps a list that descends by score in that order, and puts the new entry before the
  entries of its own score.\<close>

lemma sorted_insert_by_score:
  "sorted_wrt (\<lambda>a b. snd b \<le> snd a) ys \<Longrightarrow>
   sorted_wrt (\<lambda>a b. snd b \<le> snd a)
     (insert_sorted (\<lambda>a b. snd b - snd a) (x :: 'a \<times> rat) ys)"
  by (induction ys) (auto simp: set_insert_sorted)

lemma filter_insert_by_score:
  "filter (\<lambda>e. snd e = k) (insert_sorted (\<lambda>a b. snd b - snd a) (x :: 'a \<times> rat) ys) =
   (if snd x = k then x # filter (\<lambda>e. snd e = k) ys else filter (\<lambda>e. snd e = k) ys)"
  by (induction ys) auto

lemma sorted_js_sort_by_score:
  "sorted_wrt (\<lambda>a b. snd b \<le> snd a)
     (js_sort (\<lambda>a b. snd b - snd a) (xs :: ('a \<times> rat) list))"
  unfolding js_sort_def by (induction xs) (simp_all add: sorted_insert_by_score)

lemma stable_js_sort_by_score:
  "filter (\<lambda>e. snd e = k) (js_sort (\<lambda>a b. snd b - snd a) (xs :: ('a \<times> rat) list)) =
   filter (\<lambda>e. snd e = k) xs"
  unfolding js_sort_def by (induction xs) (simp_all add: filter_insert_by_score)

subsection \<open>The leaderboard\<close>

text \<open>C9. The leaderboard of a room holds the (name, score) pair of each of its players,
  once per player; it descends by score; and the entries of any one score stand in the
  order in which their players stand in the room's player map, which is the order of
  insertion. The leaderboard is a function of the room, so a second call on the same
  players returns the same list.\<close>

theorem makeLeaderboard_sorted_stable:
  "mset (makeLeaderboard room) = mset (map (\<lambda>p. (name p, score p)) (map snd (players room))) \<and>
   sorted_wrt (\<lambda>a b. snd a \<ge> snd b) (makeLeaderboard room) \<and>
   (\<forall>k. filter (\<lambda>e. snd e = k) (makeLeaderboard room) =
        filter (\<lambda>e. snd e = k) (map (\<lambda>p. (name p, score p)) (map snd (players room))))"
  unfolding makeLeaderboard_def
  by (simp only: mset_js_sort sorted_js_sort_by_score stable_js_sort_by_score simp_thms)

text \<open>The example of the specification: A with 500, then B and C with 1000 each.\<close>

lemma makeLeaderboard_example:
  "makeLeaderboard (demo_room\<lparr>players :=
      [(''s1'', \<lparr>name = ''A'', score = 500, answered = False\<rparr>),
       (''s2'', \<lparr>name = ''B'', score = 1000, answered = False\<rparr>),
       (''s3'', \<lparr>name = ''C'', score = 1000, answered = False\<rparr>)]\<rparr>) =
   [(''B'', 1000), (''C'', 1000), (''A'', 500)]"
  by (simp add: makeLeaderboard_def js_sort_def)

subsection \<open>Joining\<close>

text \<open>C10. When a socket that is already a player of an existing room joins it again, its
  player record is replaced by a fresh one with the name just given, score 0 and the
  answered flag false, whatever score and flag the old record had. The socket keeps its
  place in the player map and no other player changes.\<close>

theorem player_join_replaces:
  assumes "map_of rs c = Some room" and "map_of (players room) sid = Some p"
  shows "fault (player_join sid c nm rs) = None \<and>
         (\<exists>room'. map_of (rooms (player_join sid c nm rs)) c = Some room' \<and>
            map_of (players room') sid = Some \<lparr>name = nm, score = 0, answered = False\<rparr> \<and>
            (\<forall>other. other \<noteq> sid \<longrightarrow>
               map_of (players room') other = map_of (players room) other) \<and>
            map fst (players room') = map fst (players room))"
proof -
  from assms(2) have "sid \<in> fst ` set (players room)"
    by (metis domI dom_map_of_conv_image_fst)
  with assms(1) show ?thesis
    by (simp add: player_join_def update_conv' update_keys)
qed

theorem player_join_replaces_witness:
  "map_of demo_rooms ''AB12'' = Some demo_room \<and>
   map_of (players demo_room) ''s1'' = Some \<lparr>name = ''Ann'', score = 1100, answered = True\<rparr> \<and>
   fault (player_join ''s1'' ''AB12'' ''Ann'' demo_rooms) = None \<and>
   (\<exists>room'. map_of (rooms (player_join ''s1'' ''AB12'' ''Ann'' demo_rooms)) ''AB12'' = Some room' \<and>
      map_of (players room') ''s1'' = Some \<lparr>name = ''Ann'', score = 0, answered = False\<rparr> \<and>
      map_of (players room') ''s2'' = Some \<lparr>name = ''Bob'', score = 0, answered = False\<rparr> \<and>
      map fst (players room') = [''s1'', ''s2''])"
proof -
  have r: "map_of demo_rooms ''AB12'' = Some demo_room"
    by (simp add: demo_rooms_def)
  have p: "map_of (players demo_room) ''s1'' =
      Some \<lparr>name = ''Ann'', score = 1100, answered = True\<rparr>"
    by (simp add: demo_room_def)
  have o: "map_of (players demo_room) ''s2'' =
      Some \<lparr>name = ''Bob'', score = 0, answered = False\<rparr>"
    by (simp add: demo_room_def)
  have k: "map fst (players demo_room) = [''s1'', ''s2'']"
    by (simp add: demo_room_def)
  from player_join_replaces [OF r p, of "''Ann''"]
  obtain room' where
    "map_of (rooms (player_join ''s1'' ''AB12'' ''Ann'' demo_rooms)) ''AB12'' = Some room'"
    "map_of (players room') ''s1'' = Some \<lparr>name = ''Ann'', score = 0, answered = False\<rparr>"
    "map_of (players room') ''s2'' = map_of (players demo_room) ''s2''"
    "map fst (players room') = map fst (players demo_room)"
    by auto
  with player_join_replaces [OF r p, of "''Ann''"] r p o k show ?thesis
    by auto
qed

subsection \<open>Answering\<close>

text \<open>C5. When the player of the submitting socket has its answered flag set, a further
  \<^verbatim>\<open>player:answer\<close> for that room changes nothing: the table is returned as it was (so
  every score is unchanged), nothing is sent to anyone, and nothing is thrown.\<close>

theorem player_answer_replay:
  assumes "map_of rs c = Some room" and "map_of (players room) sid = Some p" and "answered p"
  shows "player_answer sid c choiceIndices now rs = \<lparr>fault = None, rooms = rs, effects = []\<rparr>"
  using assms by (simp add: player_answer_def silent_def)

theorem player_answer_replay_witness:
  "map_of demo_rooms ''AB12'' = Some demo_room \<and>
   map_of (players demo_room) ''s1'' = Some \<lparr>name = ''Ann'', score = 1100, answered = True\<rparr> \<and>
   player_answer ''s1'' ''AB12'' (Index 1) 16000 demo_rooms =
     \<lparr>fault = None, rooms = demo_rooms, effects = []\<rparr>"
proof -
  have r: "map_of demo_rooms ''AB12'' = Some demo_room"
    by (simp add: demo_rooms_def)
  have p: "map_of (players demo_room) ''s1'' =
      Some \<lparr>name = ''Ann'', score = 1100, answered = True\<rparr>"
    by (simp add: demo_room_def)
  have a: "answered \<lparr>name = ''Ann'', score = 1100, answered = True\<rparr>"
    by simp
  from player_answer_replay [OF r p a, of "Index 1" 16000] r p show ?thesis
    by blast
qed

subsection \<open>Doubles\<close>

text \<open>An integer below \<open>2^53\<close> in absolute value is a double, so rounding leaves it as it
  is and a sum of two integers that stays below \<open>2^53\<close> is exact.\<close>

lemma bit_length_bounds:
  "0 < a \<Longrightarrow> 0 < bit_length a \<and> 2 ^ (bit_length a - 1) \<le> a \<and> a < 2 ^ bit_length a"
proof (induction a rule: bit_length.induct)
  case (1 a)
  show ?case
  proof (cases "a = 1")
    case True
    then show ?thesis
      by (simp add: bit_length.simps [of 1] bit_length.simps [of 0])
  next
    case False
    with "1.prems" have h: "0 < a div 2"
      by simp
    from "1.prems" have "\<not> a \<le> 0"
      by simp
    from "1.IH" [OF this h] obtain k where k: "bit_length (a div 2) = Suc k"
      and lo: "2 ^ k \<le> a div 2" and hi: "a div 2 < 2 ^ Suc k"
      by (cases "bit_length (a div 2)") auto
    have b: "bit_length a = Suc (Suc k)"
      using "1.prems" k by (simp add: bit_length.simps [of a])
    from lo have "2 ^ Suc k \<le> a"
      by simp
    moreover from hi have "a < 2 ^ Suc (Suc k)"
      by simp
    ultimately show ?thesis
      by (simp add: b)
  qed
qed

lemma bit_length_1: "bit_length 1 = 1"
  by (simp add: bit_length.simps [of 1] bit_length.simps [of 0])

lemma round_half_even_of_int: "round_half_even (of_int m) = m"
  by (simp add: round_half_even_def)

lemma powi_nonpos: "s \<le> 0 \<Longrightarrow> (2::rat) powi s = 1 / 2 ^ nat (- s)"
  using power_int_minus_divide [of "2::rat" "- s"] by (simp add: power_int_nonneg_exp)

lemma to_double_of_pos_int:
  assumes "0 < n" and "n < 2 ^ 53"
  shows "to_double (of_int n) = of_int n"
proof -
  from bit_length_bounds [OF assms(1)] obtain k where k: "bit_length n = Suc k"
    and lo: "2 ^ k \<le> n" and hi: "n < 2 ^ Suc k"
    by (cases "bit_length n") auto
  from lo assms(2) have "(2::int) ^ k < 2 ^ 53"
    by (rule le_less_trans)
  then have "k < 53"
    by (rule power_less_imp_less_exp [of "2::int", rotated]) simp
  then have k52: "k \<le> 52"
    by simp
  let ?j = "52 - k"
  have "(of_int (2 ^ k) :: rat) \<le> of_int n"
    using lo by (simp only: of_int_le_iff)
  then have "(2::rat) powi (int k) \<le> of_int n"
    by simp
  moreover have "quotient_of (of_int n) = (n, 1)"
    by simp
  ultimately have e: "binade (of_int n) = int k"
    by (simp add: binade_def k bit_length_1)
  have a: "\<bar>of_int n :: rat\<bar> = of_int n"
    using assms(1) by simp
  have s: "max (int k - 52) (- 1074) = - int ?j"
    using k52 by simp
  have p: "(2::rat) powi (- int ?j) = 1 / 2 ^ ?j"
    using powi_nonpos [of "- int ?j"] by simp
  have q: "(of_int n :: rat) / (1 / 2 ^ ?j) = of_int (n * 2 ^ ?j)"
    by simp
  have nz: "((of_int n :: rat) = 0) = False"
    using assms(1) by simp
  have sg: "sgn (of_int n :: rat) = 1"
    using assms(1) by simp
  have "to_double (of_int n) =
      of_int (round_half_even (of_int n / (1 / 2 ^ ?j))) * (1 / 2 ^ ?j)"
    by (simp only: to_double_def nz if_False Let_def a e s p sg mult_1_left)
  also have "\<dots> = of_int (n * 2 ^ ?j) * (1 / 2 ^ ?j)"
    by (simp only: q round_half_even_of_int)
  also have "\<dots> = of_int n"
    by simp
  finally show ?thesis .
qed

lemma to_double_minus: "to_double (- x) = - to_double x"
  by (simp add: to_double_def Let_def sgn_minus)

lemma to_double_of_int:
  assumes "\<bar>n\<bar> < 2 ^ 53"
  shows "to_double (of_int n) = of_int n"
proof (cases "n = 0")
  case True
  then show ?thesis by (simp add: to_double_def)
next
  case False
  show ?thesis
  proof (cases "0 < n")
    case True
    with assms show ?thesis by (simp add: to_double_of_pos_int)
  next
    case neg: False
    with False assms have "0 < - n" and "- n < 2 ^ 53"
      by simp_all
    then have "to_double (of_int (- n)) = of_int (- n)"
      by (rule to_double_of_pos_int)
    then show ?thesis
      by (simp add: to_double_minus)
  qed
qed

lemma to_double_numeral: "numeral k < (2::int) ^ 53 \<Longrightarrow> to_double (numeral k) = numeral k"
  using to_double_of_int [of "numeral k"] by simp

lemma to_double_0: "to_double 0 = 0"
  by (simp add: to_double_def)

lemma double_add_ints:
  "\<bar>a + b\<bar> < 2 ^ 53 \<Longrightarrow> double_add (of_int a) (of_int b) = of_int a + of_int b"
  using to_double_of_int [of "a + b"] by (simp add: double_add_def)

text \<open>A third of 1000 is not a double: the quotient is rounded, and three ninths of 1000
  differ from one third of 1000.\<close>

lemma double_thirds:
  "double_div 1000 3 = 5864062014805333 / 17592186044416"
  "double_mul (double_div 1000 3) 2 = 5864062014805333 / 8796093022208"
  "double_mul (double_div 1000 9) 3 = 2932031007402667 / 8796093022208"
  "double_add (double_div 1000 3) 1100 = 6303866665915733 / 4398046511104"
  by code_simp+

subsection \<open>Scoring\<close>

text \<open>\<^verbatim>\<open>Math.floor(timeLeftMs / 50)\<close> on an integer number of milliseconds is the integer
  quotient.\<close>

lemma floor_div_50: "\<lfloor>(of_int t :: rat) / 50\<rfloor> = t div 50"
  by (metis floor_divide_of_int_eq of_int_numeral)

lemma set_playerAnswers:
  "set (playerAnswers (Indices xs)) = set xs" "set (playerAnswers (Index x)) = {x}"
  by (simp_all add: playerAnswers_def set_js_sort)

lemma distinct_playerAnswers:
  "distinct (playerAnswers (Indices xs)) = distinct xs" "distinct (playerAnswers (Index x))"
  by (simp_all add: playerAnswers_def distinct_js_sort)

lemma distinct_filter_playerAnswers:
  "distinct (filter P (playerAnswers (Indices xs))) = distinct (filter P xs)"
proof -
  have "mset (filter P (playerAnswers (Indices xs))) = mset (filter P xs)"
    by (simp add: playerAnswers_def mset_js_sort)
  then show ?thesis
    by (rule mset_eq_imp_distinct_iff)
qed

lemma scoreEarned_fully_correct:
  assumes "correctIndices q = Some ci" and "ci \<noteq> []" and "distinct ci" and "distinct pa"
    and "set pa = set ci"
  shows "scoreEarned q pa t = 1000 + of_int (t div 50)"
proof -
  have cc: "filter (\<lambda>idx. idx \<in> set ci) pa = pa"
    using assms(5) by simp
  have ic: "filter (\<lambda>idx. idx \<notin> set ci) pa = []"
    using assms(5) by simp
  have "length pa = length ci"
    using assms(3,4,5) by (metis distinct_card)
  with assms(1,2) cc ic show ?thesis
    by (simp add: scoreEarned_def floor_div_50)
qed

lemma scoreEarned_partial:
  assumes "correctIndices q = Some ci" and "distinct ci"
    and "distinct (filter (\<lambda>idx. idx \<in> set ci) pa)"
    and "set pa \<inter> set ci \<noteq> {}" and "set pa \<noteq> set ci"
  shows "scoreEarned q pa t =
    double_mul (double_div 1000 (of_nat (card (set ci)))) (of_nat (card (set pa \<inter> set ci)))"
proof -
  let ?cc = "filter (\<lambda>idx. idx \<in> set ci) pa"
  let ?ic = "filter (\<lambda>idx. idx \<notin> set ci) pa"
  have n: "length ci = card (set ci)"
    using assms(2) by (simp add: distinct_card)
  have "set ?cc = set pa \<inter> set ci"
    by auto
  with assms(3) have k: "length ?cc = card (set pa \<inter> set ci)"
    by (metis distinct_card)
  have pos: "0 < length ?cc"
    using assms(4) k by (simp add: card_gt_0_iff)
  have ne: "ci \<noteq> []"
    using assms(4) by auto
  have "\<not> (length ?cc = length ci \<and> length ?ic = 0)"
  proof
    assume a: "length ?cc = length ci \<and> length ?ic = 0"
    then have sub: "set pa \<subseteq> set ci"
      by (auto simp: filter_empty_conv)
    then have "set pa \<inter> set ci = set pa"
      by auto
    with a k n have "card (set pa) = card (set ci)"
      by simp
    with sub have "set pa = set ci"
      by (simp add: card_subset_eq)
    with assms(5) show False by simp
  qed
  then have nf: "\<not> (length ?cc = length ci \<and> length ?ic = 0)" .
  have "scoreEarned q pa t =
      (if length ?cc = length ci \<and> length ?ic = 0
       then 1000 + of_int \<lfloor>(of_int t :: rat) / 50\<rfloor>
       else if length ?cc > 0
       then double_mul (double_div 1000 (of_nat (length ci))) (of_nat (length ?cc)) else 0)"
    using assms(1) ne by (simp add: scoreEarned_def Let_def)
  also have "\<dots> = double_mul (double_div 1000 (of_nat (length ci))) (of_nat (length ?cc))"
    by (simp only: if_not_P [OF nf] if_P [OF pos])
  finally show ?thesis
    by (simp only: k n)
qed

text \<open>The handler sorts an array of answers before it scores them; the points do not
  depend on that.\<close>

lemma scoreEarned_unsorted:
  "scoreEarned q (playerAnswers (Indices xs)) t = scoreEarned q xs t"
  by (simp add: scoreEarned_def playerAnswers_def length_filter_js_sort filter_js_sort_empty
      Let_def split: option.splits)

text \<open>The scenarios of the specification, and two more: a fully correct answer with
  5000 ms left; one correct choice of two; both correct choices in another order with
  2500 ms left; both correct choices and a wrong one; a wrong answer.\<close>

lemma scoreEarned_scenarios:
  "scoreEarned demo_q1 (playerAnswers (Index 1)) 5000 = 1100"
  "scoreEarned demo_q2 (playerAnswers (Indices [0])) 5000 = 500"
  "scoreEarned demo_q2 (playerAnswers (Indices [2, 0])) 2500 = 1050"
  "scoreEarned demo_q2 (playerAnswers (Indices [0, 1, 2])) 5000 = 1000"
  "scoreEarned demo_q1 (playerAnswers (Index 0)) 5000 = 0"
  by (simp_all add: scoreEarned_def playerAnswers_def js_sort_def demo_q1_def demo_q2_def
      double_mul_def double_div_def to_double_numeral)

text \<open>With three correct choices the points of one or two of them are the rounded
  doubles.\<close>

lemma scoreEarned_thirds:
  "scoreEarned (demo_q2\<lparr>correctIndices := Some [0, 1, 2]\<rparr>) [0] 5000 =
     5864062014805333 / 17592186044416"
  "scoreEarned (demo_q2\<lparr>correctIndices := Some [0, 1, 2]\<rparr>) [2, 0] 5000 =
     5864062014805333 / 8796093022208"
  by code_simp+

lemma player_answer_scored:
  assumes "map_of rs c = Some room" and "map_of (players room) sid = Some p"
    and "\<not> answered p" and "at_index (questions (quiz room)) (currentQ room) = Some q"
  shows "player_answer sid c choiceIndices now rs =
    (let earned = scoreEarned q (playerAnswers choiceIndices) (timeLeftMs room now);
         room' = room\<lparr>players :=
           AList.update sid (p\<lparr>answered := True, score := double_add (score p) earned\<rparr>)
             (players room)\<rparr>
     in \<lparr>fault = None, rooms = AList.update c room' rs,
         effects = [Emit sid (PlayerAnswerResult (earned > 0)),
                    Emit (hostId room) (HostLeaderboard (makeLeaderboard room'))]\<rparr>)"
  using assms by (simp add: player_answer_def Let_def)

text \<open>The example table is the one that the handlers build from the empty table.\<close>

lemma demo_reachable:
  "run [HostCreateRoom ''h1'' demo_quiz (Some demo_token) ''AB12'',
        PlayerJoin ''s1'' ''AB12'' ''Ann'', PlayerJoin ''s2'' ''AB12'' ''Bob'',
        HostNextQuestion ''h1'' ''AB12'' 0, PlayerAnswer ''s1'' ''AB12'' (Index 1) 15000] [] = demo_rooms"
  by (simp add: host_create_room_def player_join_def host_next_question_def player_answer_def
      demo_token_def demo_quiz_def demo_q1_def demo_q2_def demo_rooms_def demo_room_def
      at_index_def limitSec_def scoreEarned_def playerAnswers_def timeLeftMs_def Let_def
      double_add_def to_double_numeral)

lemma demo2_reachable:
  "run [HostNextQuestion ''h1'' ''AB12'' 20000] demo_rooms = demo_rooms2"
  by (simp add: host_next_question_def demo_rooms_def demo_room_def demo_rooms2_def
      demo_room2_def demo_quiz_def demo_q2_def at_index_def limitSec_def Let_def)

text \<open>C1, as amended. The handler does not remove repeated entries from a submission; it
  counts the submitted entries that are correct choices and compares that count with the
  length of \<^verbatim>\<open>correctIndices\<close>. So the statement holds for a submission without repeated
  entries against a \<^verbatim>\<open>correctIndices\<close> without repeated entries: when the submitted
  entries are then exactly the correct choices (and there is at least one), the points
  added to the player's score are \<open>1000 + timeLeftMs div 50\<close>, where \<open>timeLeftMs\<close> is the
  time to the deadline, at least 0. The new score is the double sum of the old score and
  these points; when the old score is an integer (and the sum is below \<open>2^53\<close>) it is the
  exact sum. The handler does not throw and marks the player as answered.\<close>

theorem player_answer_fully_correct:
  assumes "map_of rs c = Some room" and "map_of (players room) sid = Some p"
    and "\<not> answered p" and "at_index (questions (quiz room)) (currentQ room) = Some q"
    and "correctIndices q = Some ci" and "ci \<noteq> []" and "distinct ci"
    and "distinct (playerAnswers choiceIndices)"
    and "set (playerAnswers choiceIndices) = set ci"
  shows "fault (player_answer sid c choiceIndices now rs) = None \<and>
    (\<exists>room' p'. map_of (rooms (player_answer sid c choiceIndices now rs)) c = Some room' \<and>
       map_of (players room') sid = Some p' \<and>
       score p' = double_add (score p) (1000 + of_int (timeLeftMs room now div 50)) \<and>
       (\<forall>n. score p = of_int n \<longrightarrow> \<bar>n + (1000 + timeLeftMs room now div 50)\<bar> < 2 ^ 53 \<longrightarrow>
          score p' = score p + (1000 + of_int (timeLeftMs room now div 50))))"
proof -
  let ?x = "1000 + timeLeftMs room now div 50"
  have e: "double_add (of_int n) (1000 + of_int (timeLeftMs room now div 50)) =
      of_int n + (1000 + of_int (timeLeftMs room now div 50))" if "\<bar>n + ?x\<bar> < 2 ^ 53" for n
    using double_add_ints [OF that] by simp
  from scoreEarned_fully_correct [OF assms(5-9)] show ?thesis
    by (simp add: player_answer_scored [OF assms(1-4)] Let_def update_conv' e)
qed

text \<open>With 5000 ms left the fully correct answer earns 1100 points.\<close>

theorem player_answer_fully_correct_witness:
  "map_of demo_rooms ''AB12'' = Some demo_room \<and>
   map_of (players demo_room) ''s2'' = Some \<lparr>name = ''Bob'', score = 0, answered = False\<rparr> \<and>
   at_index (questions (quiz demo_room)) (currentQ demo_room) = Some demo_q1 \<and>
   correctIndices demo_q1 = Some [1] \<and>
   set (playerAnswers (Index 1)) = set [1] \<and>
   timeLeftMs demo_room 15000 = 5000 \<and>
   fault (player_answer ''s2'' ''AB12'' (Index 1) 15000 demo_rooms) = None \<and>
   (\<exists>room' p'.
      map_of (rooms (player_answer ''s2'' ''AB12'' (Index 1) 15000 demo_rooms)) ''AB12'' = Some room' \<and>
      map_of (players room') ''s2'' = Some p' \<and> score p' = 1100)"
proof -
  have r: "map_of demo_rooms ''AB12'' = Some demo_room"
    by (simp add: demo_rooms_def)
  have p: "map_of (players demo_room) ''s2'' = Some \<lparr>name = ''Bob'', score = 0, answered = False\<rparr>"
    by (simp add: demo_room_def)
  have a: "\<not> answered \<lparr>name = ''Bob'', score = 0, answered = False\<rparr>"
    by simp
  have q: "at_index (questions (quiz demo_room)) (currentQ demo_room) = Some demo_q1"
    by (simp add: demo_room_def demo_quiz_def at_index_def)
  have c: "correctIndices demo_q1 = Some [1]"
    by (simp add: demo_q1_def)
  have n: "[1::int] \<noteq> []" and d: "distinct [1::int]"
    by simp_all
  have dp: "distinct (playerAnswers (Index 1))"
    by (simp add: playerAnswers_def)
  have s: "set (playerAnswers (Index 1)) = set [1]"
    by (simp add: playerAnswers_def)
  have t: "timeLeftMs demo_room 15000 = 5000"
    by (simp add: timeLeftMs_def demo_room_def)
  from player_answer_fully_correct [OF r p a q c n d dp s, of 15000] r p q c s t
  show ?thesis by (auto simp: double_add_def to_double_numeral)
qed

text \<open>The claim as stated, for the set of the submitted choices after deduplication, fails:
  against the correct set \<open>{1}\<close> the submission \<open>[1, 1]\<close> is \<open>{1}\<close> once deduplicated, but
  with 5000 ms left it earns \<open>1000 / 1 * 2 = 2000\<close> points, not 1100.\<close>

theorem player_answer_fully_correct_counterexample:
  "map_of demo_rooms ''AB12'' = Some demo_room \<and>
   map_of (players demo_room) ''s2'' = Some \<lparr>name = ''Bob'', score = 0, answered = False\<rparr> \<and>
   at_index (questions (quiz demo_room)) (currentQ demo_room) = Some demo_q1 \<and>
   correctIndices demo_q1 = Some [1] \<and>
   set (playerAnswers (Indices [1, 1])) = set [1] \<and>
   timeLeftMs demo_room 15000 = 5000 \<and>
   map_of (rooms (player_answer ''s2'' ''AB12'' (Indices [1, 1]) 15000 demo_rooms)) ''AB12'' =
     Some (demo_room\<lparr>players :=
       [(''s1'', \<lparr>name = ''Ann'', score = 1100, answered = True\<rparr>),
        (''s2'', \<lparr>name = ''Bob'', score = 2000, answered = True\<rparr>)]\<rparr>) \<and>
   (2000 :: rat) \<noteq> 0 + (1000 + of_int (5000 div 50))"
  by (simp add: player_answer_def demo_rooms_def demo_room_def demo_quiz_def demo_q1_def
      at_index_def scoreEarned_def playerAnswers_def js_sort_def timeLeftMs_def Let_def
      double_add_def double_mul_def double_div_def to_double_numeral)

text \<open>C3, as amended. The handler counts the submitted entries that are correct choices,
  so the statement holds for a submission that repeats no correct choice (incorrect
  choices may be repeated) against a \<^verbatim>\<open>correctIndices\<close> without repeated entries: when
  the submission holds at least one correct choice, and either misses a correct choice or
  holds an incorrect one, the points added to the player's score are
  \<open>(1000 / |correct set|) * |correct choices submitted|\<close>, computed as the handler does, in
  doubles: the quotient is rounded, then the product, then the sum with the old score.
  The time left and the number of incorrect choices submitted do not occur in that
  value.\<close>

theorem player_answer_partial:
  assumes "map_of rs c = Some room" and "map_of (players room) sid = Some p"
    and "\<not> answered p" and "at_index (questions (quiz room)) (currentQ room) = Some q"
    and "correctIndices q = Some ci" and "distinct ci"
    and "distinct (filter (\<lambda>idx. idx \<in> set ci) (playerAnswers choiceIndices))"
    and "set (playerAnswers choiceIndices) \<inter> set ci \<noteq> {}"
    and "\<not> set ci \<subseteq> set (playerAnswers choiceIndices) \<or>
         \<not> set (playerAnswers choiceIndices) \<subseteq> set ci"
  shows "fault (player_answer sid c choiceIndices now rs) = None \<and>
    (\<exists>room' p'. map_of (rooms (player_answer sid c choiceIndices now rs)) c = Some room' \<and>
       map_of (players room') sid = Some p' \<and>
       score p' = double_add (score p)
         (double_mul (double_div 1000 (of_nat (card (set ci))))
            (of_nat (card (set (playerAnswers choiceIndices) \<inter> set ci)))))"
proof -
  from assms(9) have "set (playerAnswers choiceIndices) \<noteq> set ci"
    by auto
  from scoreEarned_partial [OF assms(5-8) this] show ?thesis
    by (simp add: player_answer_scored [OF assms(1-4)] Let_def update_conv')
qed

text \<open>Bob submits \<open>[1, 0, 1]\<close> against the correct set \<open>{0, 2}\<close>: one correct choice of two
  and a wrong choice twice earn \<open>1000 / 2 * 1 = 500\<close> points.\<close>

theorem player_answer_partial_witness:
  "map_of demo_rooms2 ''AB12'' = Some demo_room2 \<and>
   map_of (players demo_room2) ''s2'' = Some \<lparr>name = ''Bob'', score = 0, answered = False\<rparr> \<and>
   at_index (questions (quiz demo_room2)) (currentQ demo_room2) = Some demo_q2 \<and>
   correctIndices demo_q2 = Some [0, 2] \<and>
   playerAnswers (Indices [1, 0, 1]) = [0, 1, 1] \<and>
   fault (player_answer ''s2'' ''AB12'' (Indices [1, 0, 1]) 39000 demo_rooms2) = None \<and>
   (\<exists>room' p'.
      map_of (rooms (player_answer ''s2'' ''AB12'' (Indices [1, 0, 1]) 39000 demo_rooms2)) ''AB12'' =
        Some room' \<and>
      map_of (players room') ''s2'' = Some p' \<and> score p' = 500)"
proof -
  have r: "map_of demo_rooms2 ''AB12'' = Some demo_room2"
    by (simp add: demo_rooms2_def)
  have p: "map_of (players demo_room2) ''s2'' = Some \<lparr>name = ''Bob'', score = 0, answered = False\<rparr>"
    by (simp add: demo_room2_def)
  have a: "\<not> answered \<lparr>name = ''Bob'', score = 0, answered = False\<rparr>"
    by simp
  have q: "at_index (questions (quiz demo_room2)) (currentQ demo_room2) = Some demo_q2"
    by (simp add: demo_room2_def demo_quiz_def at_index_def)
  have c: "correctIndices demo_q2 = Some [0, 2]"
    by (simp add: demo_q2_def)
  have d: "distinct [0, 2::int]"
    by simp
  have s: "playerAnswers (Indices [1, 0, 1]) = [0, 1, 1]"
    by (simp add: playerAnswers_def js_sort_def)
  have dp: "distinct (filter (\<lambda>idx. idx \<in> set [0, 2]) (playerAnswers (Indices [1, 0, 1])))"
    by (simp add: s)
  have i: "set (playerAnswers (Indices [1, 0, 1])) \<inter> set [0, 2] \<noteq> {}"
    by (simp add: s)
  have ii: "set (playerAnswers (Indices [1, 0, 1])) \<inter> set [0, 2] = {0}"
    by (simp add: s)
  have m: "\<not> set [0, 2] \<subseteq> set (playerAnswers (Indices [1, 0, 1])) \<or>
           \<not> set (playerAnswers (Indices [1, 0, 1])) \<subseteq> set [0, 2]"
    by (simp add: s)
  have v: "double_add 0 (double_mul (double_div 1000 2) 1) = 500"
    by (simp add: double_add_def double_mul_def double_div_def to_double_numeral)
  from player_answer_partial [OF r p a q c d dp i m, of 39000] r p q c s v
  show ?thesis by (simp add: ii)
qed

text \<open>The claim as stated, for the deduplicated submission, fails: against the correct set
  \<open>{0, 2}\<close> the submission \<open>[0, 0]\<close> is \<open>{0}\<close> once deduplicated, one correct choice of
  two, but the handler counts two correct entries, takes the answer for fully correct and
  with 1000 ms left adds \<open>1000 + 20 = 1020\<close> points, not 500.\<close>

theorem player_answer_partial_counterexample:
  "map_of demo_rooms2 ''AB12'' = Some demo_room2 \<and>
   map_of (players demo_room2) ''s2'' = Some \<lparr>name = ''Bob'', score = 0, answered = False\<rparr> \<and>
   at_index (questions (quiz demo_room2)) (currentQ demo_room2) = Some demo_q2 \<and>
   correctIndices demo_q2 = Some [0, 2] \<and>
   set (playerAnswers (Indices [0, 0])) = {0} \<and>
   map_of (rooms (player_answer ''s2'' ''AB12'' (Indices [0, 0]) 39000 demo_rooms2)) ''AB12'' =
     Some (demo_room2\<lparr>players :=
       [(''s1'', \<lparr>name = ''Ann'', score = 1100, answered = False\<rparr>),
        (''s2'', \<lparr>name = ''Bob'', score = 1020, answered = True\<rparr>)]\<rparr>) \<and>
   (1020 :: rat) \<noteq>
     double_add 0 (double_mul (double_div 1000 (of_nat (card {0, 2 :: int})))
       (of_nat (card ({0} \<inter> {0, 2 :: int}))))"
  by (simp add: player_answer_def demo_rooms2_def demo_room2_def demo_quiz_def demo_q2_def
      at_index_def scoreEarned_def playerAnswers_def js_sort_def timeLeftMs_def Let_def
      double_add_def double_mul_def double_div_def to_double_numeral)

subsection \<open>Disconnecting\<close>

text \<open>The table is a \<^verbatim>\<open>Map\<close>, so its keys are distinct. Every handler keeps them so
  (\<open>step_distinct\<close> below), and the statements about the loop of the disconnect handler
  assume it.\<close>

lemma disconnect_eq:
  "disconnect sid rs =
     \<lparr>fault = None, rooms = fst (disconnect_loop sid rs), effects = snd (disconnect_loop sid rs)\<rparr>"
  by (simp add: disconnect_def split: prod.splits)

lemma keys_disconnect_loop: "fst ` set (fst (disconnect_loop sid rs)) \<subseteq> fst ` set rs"
proof (induction rs)
  case Nil
  then show ?case by simp
next
  case (Cons a rs)
  obtain code room where a: "a = (code, room)" by (cases a)
  obtain rs' es where l: "disconnect_loop sid rs = (rs', es)" by (cases "disconnect_loop sid rs")
  from Cons l have "fst ` set rs' \<subseteq> fst ` set rs" by simp
  with a l show ?case by auto
qed

lemma distinct_disconnect_loop:
  "distinct (map fst rs) \<Longrightarrow> distinct (map fst (fst (disconnect_loop sid rs)))"
proof (induction rs)
  case Nil
  then show ?case by simp
next
  case (Cons a rs)
  obtain code room where a: "a = (code, room)" by (cases a)
  obtain rs' es where l: "disconnect_loop sid rs = (rs', es)" by (cases "disconnect_loop sid rs")
  from Cons l have d: "distinct (map fst rs')" by simp
  from keys_disconnect_loop [of sid rs] l Cons.prems a have "code \<notin> fst ` set rs'"
    by auto
  with d a l show ?case by simp
qed

lemma map_of_disconnect_loop:
  "distinct (map fst rs) \<Longrightarrow>
   map_of (fst (disconnect_loop sid rs)) c =
     (case map_of rs c of
        None \<Rightarrow> None
      | Some room \<Rightarrow>
          if hostId room = sid then None
          else if map_of (players room) sid \<noteq> None
          then Some (room\<lparr>players := AList.delete sid (players room)\<rparr>)
          else Some room)"
proof (induction rs)
  case Nil
  then show ?case by simp
next
  case (Cons a rs)
  obtain code room where a: "a = (code, room)" by (cases a)
  obtain rs' es where l: "disconnect_loop sid rs = (rs', es)" by (cases "disconnect_loop sid rs")
  from keys_disconnect_loop [of sid rs] l Cons.prems a have "code \<notin> fst ` set rs'"
    by auto
  then have n: "map_of rs' code = None"
    by (simp add: map_of_eq_None_iff)
  from Cons a l have ih: "map_of rs' c =
     (case map_of rs c of
        None \<Rightarrow> None
      | Some room \<Rightarrow>
          if hostId room = sid then None
          else if map_of (players room) sid \<noteq> None
          then Some (room\<lparr>players := AList.delete sid (players room)\<rparr>)
          else Some room)"
    by simp
  show ?case
  proof (cases "c = code")
    case True
    with a l n show ?thesis by simp
  next
    case False
    with a l ih show ?thesis by simp
  qed
qed

lemma closed_disconnect_loop:
  "(c, room) \<in> set rs \<Longrightarrow> hostId room = sid \<Longrightarrow>
   Emit c GameClosed \<in> set (snd (disconnect_loop sid rs))"
  by (induction rs) (auto split: prod.splits)

lemma update_disconnect_loop:
  "(c, room) \<in> set rs \<Longrightarrow> hostId room \<noteq> sid \<Longrightarrow> map_of (players room) sid \<noteq> None \<Longrightarrow>
   Emit c (HostPlayersUpdate (map snd (AList.delete sid (players room))))
     \<in> set (snd (disconnect_loop sid rs))"
  by (induction rs) (auto split: prod.splits)

lemma no_start_disconnect_loop:
  "list_all (\<lambda>x. \<not> is_question_start c x) (snd (disconnect_loop sid rs))"
  by (induction rs) (auto split: prod.splits)

text \<open>C7. For every room \<open>c\<close> of the table: when the socket that disconnects is the host
  of the room, the room is removed, \<^verbatim>\<open>game:closed\<close> is sent to the group \<open>c\<close>, and a lookup
  of \<open>c\<close> in the table after the disconnect finds nothing (a \<^verbatim>\<open>player:join\<close> for \<open>c\<close> is
  answered with "Room not found"). When the socket is not the host of the room but one of
  its players, the room stays and loses that player only, and the remaining players are
  sent to the group \<open>c\<close> as \<^verbatim>\<open>host:players_update\<close>. Any other room is left as it was. The
  handler does not throw.\<close>

theorem disconnect_host_or_player:
  assumes "distinct (map fst rs)" and "map_of rs c = Some room"
  shows "fault (disconnect sid rs) = None \<and>
    (if hostId room = sid then
       map_of (rooms (disconnect sid rs)) c = None \<and>
       Emit c GameClosed \<in> set (effects (disconnect sid rs)) \<and>
       effects (player_join s c nm (rooms (disconnect sid rs))) =
         [Emit s (ErrorMsg ''Room not found'')]
     else if map_of (players room) sid \<noteq> None then
       map_of (rooms (disconnect sid rs)) c =
         Some (room\<lparr>players := AList.delete sid (players room)\<rparr>) \<and>
       map_of (AList.delete sid (players room)) = (map_of (players room))(sid := None) \<and>
       Emit c (HostPlayersUpdate (map snd (AList.delete sid (players room))))
         \<in> set (effects (disconnect sid rs))
     else map_of (rooms (disconnect sid rs)) c = Some room)"
proof -
  obtain rs' es where l: "disconnect_loop sid rs = (rs', es)"
    by (cases "disconnect_loop sid rs")
  then have o: "disconnect sid rs = \<lparr>fault = None, rooms = rs', effects = es\<rparr>"
    by (simp add: disconnect_def)
  from assms(2) have m: "(c, room) \<in> set rs"
    by (rule map_of_SomeD)
  from map_of_disconnect_loop [OF assms(1), of sid c] assms(2) l
  have r: "map_of rs' c =
      (if hostId room = sid then None
       else if map_of (players room) sid \<noteq> None
       then Some (room\<lparr>players := AList.delete sid (players room)\<rparr>)
       else Some room)"
    by simp
  show ?thesis
  proof (cases "hostId room = sid")
    case True
    from closed_disconnect_loop [OF m True] l have "Emit c GameClosed \<in> set es"
      by simp
    with True r o show ?thesis
      by (simp add: player_join_def)
  next
    case False
    show ?thesis
    proof (cases "map_of (players room) sid = None")
      case True
      with False r o show ?thesis by simp
    next
      case p: False
      from update_disconnect_loop [OF m False p] l
      have "Emit c (HostPlayersUpdate (map snd (AList.delete sid (players room)))) \<in> set es"
        by simp
      with False p r o show ?thesis
        by (simp add: delete_conv')
    qed
  qed
qed

theorem disconnect_host_or_player_witness:
  "distinct (map fst demo_rooms) \<and> map_of demo_rooms ''AB12'' = Some demo_room \<and>
   hostId demo_room = ''h1'' \<and>
   map_of (rooms (disconnect ''h1'' demo_rooms)) ''AB12'' = None \<and>
   Emit ''AB12'' GameClosed \<in> set (effects (disconnect ''h1'' demo_rooms)) \<and>
   effects (player_join ''s9'' ''AB12'' ''Cy'' (rooms (disconnect ''h1'' demo_rooms))) =
     [Emit ''s9'' (ErrorMsg ''Room not found'')] \<and>
   map_of (players demo_room) ''s1'' \<noteq> None \<and>
   map_of (rooms (disconnect ''s1'' demo_rooms)) ''AB12'' =
     Some (demo_room\<lparr>players := [(''s2'', \<lparr>name = ''Bob'', score = 0, answered = False\<rparr>)]\<rparr>) \<and>
   Emit ''AB12'' (HostPlayersUpdate [\<lparr>name = ''Bob'', score = 0, answered = False\<rparr>])
     \<in> set (effects (disconnect ''s1'' demo_rooms))"
proof -
  have d: "distinct (map fst demo_rooms)"
    by (simp add: demo_rooms_def)
  have r: "map_of demo_rooms ''AB12'' = Some demo_room"
    by (simp add: demo_rooms_def)
  have h: "hostId demo_room = ''h1''"
    by (simp add: demo_room_def)
  have p: "map_of (players demo_room) ''s1'' \<noteq> None"
    by (simp add: demo_room_def)
  have ps: "AList.delete ''s1'' (players demo_room) =
      [(''s2'', \<lparr>name = ''Bob'', score = 0, answered = False\<rparr>)]"
    by (simp add: demo_room_def)
  from disconnect_host_or_player [OF d r, of "''h1''" "''s9''" "''Cy''"]
    disconnect_host_or_player [OF d r, of "''s1''" "''s9''" "''Cy''"] d r h p ps
  show ?thesis by simp
qed

subsection \<open>A room along a run\<close>

text \<open>What one event does to the room stored under a code \<open>c\<close>: unless the event creates a
  room under \<open>c\<close>, a room found under \<open>c\<close> after the event was there before it, with the
  same host and the same quiz, and its index has grown by one if the event is its host's
  \<^verbatim>\<open>host:next_question\<close> and is unchanged otherwise.\<close>

lemma update_frame:
  assumes "map_of rs k = Some room" and "hostId room2 = hostId room"
    and "quiz room2 = quiz room" and "currentQ room2 = currentQ room + d"
    and "map_of (AList.update k room2 rs) c = Some r'"
  shows "\<exists>r. map_of rs c = Some r \<and> hostId r' = hostId r \<and> quiz r' = quiz r \<and>
    currentQ r' = currentQ r + (if c = k then d else 0)"
  using assms by (cases "c = k") (auto simp: update_conv')

lemma create_room_other:
  "\<not> creates c (HostCreateRoom sid qz verified roomCode) \<Longrightarrow>
   map_of (rooms (host_create_room sid qz verified roomCode rs)) c = map_of rs c"
  by (cases verified) (auto simp: host_create_room_def update_conv')

text \<open>An event that creates a room under \<open>c\<close> stores a new room there, without players
  and with the index \<open>-1\<close>, whether or not the table had a room under \<open>c\<close>.\<close>

lemma create_room_fresh:
  "creates c e \<Longrightarrow>
   \<exists>sid uid qz. map_of (rooms (step e rs)) c =
     Some \<lparr>hostId = sid, hostUserId = uid, quiz = qz, players = [], currentQ = - 1,
           endsAt = None\<rparr>"
  by (induction c e rule: creates.induct) (auto simp: host_create_room_def update_conv')

lemma join_room:
  assumes "map_of (rooms (player_join sid k nm rs)) c = Some r'"
  shows "\<exists>r. map_of rs c = Some r \<and> hostId r' = hostId r \<and> quiz r' = quiz r \<and>
    currentQ r' = currentQ r"
proof (cases "map_of rs k")
  case None
  with assms show ?thesis by (simp add: player_join_def)
next
  case (Some room)
  let ?room2 = "room\<lparr>players :=
    AList.update sid \<lparr>name = nm, score = 0, answered = False\<rparr> (players room)\<rparr>"
  from Some assms have "map_of (AList.update k ?room2 rs) c = Some r'"
    by (simp add: player_join_def Let_def)
  from update_frame [OF Some _ _ _ this, of 0] show ?thesis by simp
qed

lemma next_question_room:
  assumes "map_of (rooms (host_next_question sid k now rs)) c = Some r'"
  shows "\<exists>r. map_of rs c = Some r \<and> hostId r' = hostId r \<and> quiz r' = quiz r \<and>
    currentQ r' = currentQ r + (if k = c \<and> sid = hostId r then 1 else 0)"
proof (cases "map_of rs k")
  case None
  with assms have "map_of rs c = Some r'"
    by (simp add: host_next_question_def silent_def)
  with None show ?thesis by auto
next
  case (Some room)
  show ?thesis
  proof (cases "sid = hostId room")
    case False
    with Some assms have "map_of rs c = Some r'"
      by (simp add: host_next_question_def silent_def)
    with Some False show ?thesis by auto
  next
    case True
    let ?room1 = "room\<lparr>currentQ := currentQ room + 1\<rparr>"
    let ?room2 = "?room1\<lparr>players :=
      map (\<lambda>(k, p). (k, p\<lparr>answered := False\<rparr>)) (players ?room1)\<rparr>"
    have "\<exists>room'. rooms (host_next_question sid k now rs) = AList.update k room' rs \<and>
        hostId room' = hostId room \<and> quiz room' = quiz room \<and>
        currentQ room' = currentQ room + 1"
    proof (cases "currentQ ?room1 \<ge> int (length (questions (quiz ?room1)))")
      case over: True
      with Some True
      have eq: "rooms (host_next_question sid k now rs) = AList.update k ?room1 rs"
        by (simp add: host_next_question_def Let_def)
      show ?thesis by (rule exI [of _ ?room1]) (simp add: eq)
    next
      case more: False
      show ?thesis
      proof (cases "at_index (questions (quiz ?room2)) (currentQ ?room2)")
        case None
        with Some True more
        have eq: "rooms (host_next_question sid k now rs) = AList.update k ?room2 rs"
          by (simp add: host_next_question_def Let_def)
        show ?thesis by (rule exI [of _ ?room2]) (simp add: eq)
      next
        case q: (Some q)
        with Some True more
        have eq: "rooms (host_next_question sid k now rs) =
            AList.update k (?room2\<lparr>endsAt := Some (now + limitSec q * 1000)\<rparr>) rs"
          by (simp add: host_next_question_def Let_def)
        show ?thesis
          by (rule exI [of _ "?room2\<lparr>endsAt := Some (now + limitSec q * 1000)\<rparr>"])
            (simp add: eq)
      qed
    qed
    then obtain room' where u: "rooms (host_next_question sid k now rs) = AList.update k room' rs"
      and f: "hostId room' = hostId room" "quiz room' = quiz room"
        "currentQ room' = currentQ room + 1"
      by blast
    from assms u have "map_of (AList.update k room' rs) c = Some r'"
      by simp
    from update_frame [OF Some f this] Some True show ?thesis
      by (cases "c = k") auto
  qed
qed

lemma answer_room:
  assumes "map_of (rooms (player_answer sid k choiceIndices now rs)) c = Some r'"
  shows "\<exists>r. map_of rs c = Some r \<and> hostId r' = hostId r \<and> quiz r' = quiz r \<and>
    currentQ r' = currentQ r"
proof -
  have "rooms (player_answer sid k choiceIndices now rs) = rs \<or>
    (\<exists>room ps. map_of rs k = Some room \<and>
       rooms (player_answer sid k choiceIndices now rs) =
         AList.update k (room\<lparr>players := ps\<rparr>) rs)"
  proof (cases "map_of rs k")
    case None
    then show ?thesis by (simp add: player_answer_def silent_def)
  next
    case (Some room)
    show ?thesis
    proof (cases "map_of (players room) sid")
      case None
      with Some show ?thesis by (simp add: player_answer_def silent_def)
    next
      case p: (Some p)
      show ?thesis
      proof (cases "answered p")
        case True
        with Some p show ?thesis by (simp add: player_answer_def silent_def)
      next
        case False
        show ?thesis
        proof (cases "at_index (questions (quiz room)) (currentQ room)")
          case None
          with Some p False show ?thesis by (simp add: player_answer_def Let_def) blast
        next
          case q: (Some q)
          with Some p False show ?thesis by (simp add: player_answer_def Let_def) blast
        qed
      qed
    qed
  qed
  then show ?thesis
  proof
    assume "rooms (player_answer sid k choiceIndices now rs) = rs"
    with assms show ?thesis by simp
  next
    assume "\<exists>room ps. map_of rs k = Some room \<and>
       rooms (player_answer sid k choiceIndices now rs) =
         AList.update k (room\<lparr>players := ps\<rparr>) rs"
    then obtain room ps where r: "map_of rs k = Some room"
      and u: "rooms (player_answer sid k choiceIndices now rs) =
         AList.update k (room\<lparr>players := ps\<rparr>) rs"
      by blast
    from assms u have "map_of (AList.update k (room\<lparr>players := ps\<rparr>) rs) c = Some r'"
      by simp
    from update_frame [OF r _ _ _ this, of 0] show ?thesis by simp
  qed
qed

lemma disconnect_room:
  assumes "distinct (map fst rs)" and "map_of (rooms (disconnect sid rs)) c = Some r'"
  shows "\<exists>r. map_of rs c = Some r \<and> hostId r' = hostId r \<and> quiz r' = quiz r \<and>
    currentQ r' = currentQ r"
proof (cases "map_of rs c")
  case None
  with map_of_disconnect_loop [OF assms(1), of sid c] assms(2) show ?thesis
    by (simp add: disconnect_eq)
next
  case (Some room)
  with map_of_disconnect_loop [OF assms(1), of sid c] assms(2)
  have "(if hostId room = sid then None
         else if map_of (players room) sid \<noteq> None
         then Some (room\<lparr>players := AList.delete sid (players room)\<rparr>)
         else Some room) = Some r'"
    by (simp add: disconnect_eq)
  then have "r' = room\<lparr>players := AList.delete sid (players room)\<rparr> \<or> r' = room"
    by (simp split: if_splits)
  with Some show ?thesis by auto
qed

lemma end_question_room: "rooms (endQuestion roomCode rs) = rs"
  by (simp add: endQuestion_def silent_def split: option.splits)

lemma step_distinct:
  assumes "distinct (map fst rs)"
  shows "distinct (map fst (rooms (step e rs)))"
proof (cases e)
  case (HostCreateRoom sid qz verified roomCode)
  with assms show ?thesis
    by (cases verified) (simp_all add: host_create_room_def distinct_update)
next
  case (PlayerJoin sid roomCode nm)
  with assms show ?thesis
    by (simp add: player_join_def Let_def distinct_update split: option.splits)
next
  case (HostNextQuestion sid roomCode now)
  with assms show ?thesis
    by (simp add: host_next_question_def silent_def Let_def distinct_update
        split: option.splits)
next
  case (PlayerAnswer sid roomCode choiceIndices now)
  with assms show ?thesis
    by (simp add: player_answer_def silent_def Let_def distinct_update split: option.splits)
next
  case (Disconnect sid)
  from distinct_disconnect_loop [OF assms, of sid] Disconnect show ?thesis
    by (simp add: disconnect_eq)
next
  case (TimerFire roomCode)
  with assms show ?thesis
    by (simp add: end_question_room)
qed

lemma step_room:
  assumes "distinct (map fst rs)" and "\<not> creates c e"
    and "map_of (rooms (step e rs)) c = Some r'"
  shows "\<exists>r. map_of rs c = Some r \<and> hostId r' = hostId r \<and> quiz r' = quiz r \<and>
    currentQ r' = currentQ r + (if advances c (hostId r) e then 1 else 0)"
proof (cases e)
  case (HostCreateRoom sid qz verified roomCode)
  with assms(2,3) create_room_other [of c sid qz verified roomCode rs] show ?thesis
    by simp
next
  case (PlayerJoin sid roomCode nm)
  with assms(3) join_room [of sid roomCode nm rs c r'] show ?thesis
    by simp
next
  case (HostNextQuestion sid roomCode now)
  with assms(3) next_question_room [of sid roomCode now rs c r'] show ?thesis
    by simp
next
  case (PlayerAnswer sid roomCode choiceIndices now)
  with assms(3) answer_room [of sid roomCode choiceIndices now rs c r'] show ?thesis
    by simp
next
  case (Disconnect sid)
  with assms(1,3) disconnect_room [of rs sid c r'] show ?thesis
    by simp
next
  case (TimerFire roomCode)
  with assms(3) show ?thesis
    by (simp add: end_question_room)
qed

lemma run_distinct: "distinct (map fst rs) \<Longrightarrow> distinct (map fst (run es rs))"
  by (induction es arbitrary: rs) (simp_all add: step_distinct)

lemma run_absent:
  "distinct (map fst rs) \<Longrightarrow> list_all (\<lambda>e. \<not> creates c e) es \<Longrightarrow> map_of rs c = None \<Longrightarrow>
   map_of (run es rs) c = None"
proof (induction es arbitrary: rs)
  case Nil
  then show ?case by simp
next
  case (Cons e es)
  have "map_of (rooms (step e rs)) c = None"
  proof (cases "map_of (rooms (step e rs)) c")
    case (Some r')
    from step_room [OF Cons.prems(1) _ Some] Cons.prems(2,3) show ?thesis by simp
  qed simp
  with Cons show ?case
    by (simp add: step_distinct)
qed

text \<open>C8. A room lives under its code from the \<^verbatim>\<open>host:create_room\<close> that stored it until
  its host disconnects, or until another \<^verbatim>\<open>host:create_room\<close> draws the same code and
  stores a new room with index \<open>-1\<close> there. The statement follows one room: for every run
  of events (create, join, next question, answer, disconnect, timer) none of which creates
  a room under the code \<open>c\<close>, if the table has a room under \<open>c\<close> before and after the run,
  then the index of the room after the run is its index before the run plus the number of
  \<^verbatim>\<open>host:next_question\<close> events of the run that carry the code \<open>c\<close> and come from the host
  of the room. So the index never decreases, and no event but the host's
  \<^verbatim>\<open>host:next_question\<close> changes it.\<close>

theorem currentQ_monotone:
  assumes "distinct (map fst rs)" and "map_of rs c = Some r"
    and "list_all (\<lambda>e. \<not> creates c e) es" and "map_of (run es rs) c = Some r'"
  shows "currentQ r \<le> currentQ r' \<and>
    currentQ r' = currentQ r + int (length (filter (advances c (hostId r)) es))"
proof -
  have "currentQ r' = currentQ r + int (length (filter (advances c (hostId r)) es))"
    using assms
  proof (induction es arbitrary: rs r)
    case Nil
    then show ?case by simp
  next
    case (Cons e es)
    let ?rs1 = "rooms (step e rs)"
    have d1: "distinct (map fst ?rs1)"
      using Cons.prems(1) by (rule step_distinct)
    have nc: "\<not> creates c e" and ncs: "list_all (\<lambda>e. \<not> creates c e) es"
      using Cons.prems(3) by simp_all
    have fin: "map_of (run es ?rs1) c = Some r'"
      using Cons.prems(4) by simp
    show ?case
    proof (cases "map_of ?rs1 c")
      case None
      from run_absent [OF d1 ncs None] fin show ?thesis by simp
    next
      case (Some r1)
      from step_room [OF Cons.prems(1) nc Some] Cons.prems(2)
      have h: "hostId r1 = hostId r"
        and q: "currentQ r1 = currentQ r + (if advances c (hostId r) e then 1 else 0)"
        by auto
      from Cons.IH [OF d1 Some ncs fin] h q show ?thesis
        by simp
    qed
  qed
  then show ?thesis by simp
qed

theorem currentQ_monotone_witness:
  "distinct (map fst demo_rooms) \<and> map_of demo_rooms ''AB12'' = Some demo_room \<and>
   list_all (\<lambda>e. \<not> creates ''AB12'' e)
     [PlayerAnswer ''s2'' ''AB12'' (Index 1) 15000, TimerFire ''AB12'',
      HostNextQuestion ''h1'' ''AB12'' 21000, Disconnect ''s1''] \<and>
   map_of (run [PlayerAnswer ''s2'' ''AB12'' (Index 1) 15000, TimerFire ''AB12'',
      HostNextQuestion ''h1'' ''AB12'' 21000, Disconnect ''s1''] demo_rooms) ''AB12'' =
     Some (demo_room\<lparr>players := [(''s2'', \<lparr>name = ''Bob'', score = 1100, answered = False\<rparr>)],
       currentQ := 1, endsAt := Some 41000\<rparr>) \<and>
   currentQ demo_room = 0 \<and>
   currentQ demo_room \<le> currentQ (demo_room\<lparr>players :=
       [(''s2'', \<lparr>name = ''Bob'', score = 1100, answered = False\<rparr>)],
       currentQ := 1, endsAt := Some 41000\<rparr>)"
proof -
  let ?es = "[PlayerAnswer ''s2'' ''AB12'' (Index 1) 15000, TimerFire ''AB12'',
      HostNextQuestion ''h1'' ''AB12'' 21000, Disconnect ''s1'']"
  let ?r' = "demo_room\<lparr>players := [(''s2'', \<lparr>name = ''Bob'', score = 1100, answered = False\<rparr>)],
       currentQ := 1, endsAt := Some 41000\<rparr>"
  have d: "distinct (map fst demo_rooms)"
    by (simp add: demo_rooms_def)
  have r: "map_of demo_rooms ''AB12'' = Some demo_room"
    by (simp add: demo_rooms_def)
  have c: "list_all (\<lambda>e. \<not> creates ''AB12'' e) ?es"
    by simp
  have f: "map_of (run ?es demo_rooms) ''AB12'' = Some ?r'"
    by (simp add: player_answer_def endQuestion_def host_next_question_def disconnect_def
        demo_rooms_def demo_room_def demo_quiz_def demo_q1_def demo_q2_def at_index_def
        limitSec_def scoreEarned_def playerAnswers_def timeLeftMs_def Let_def
        double_add_def to_double_numeral)
  have q: "currentQ demo_room = 0"
    by (simp add: demo_room_def)
  from currentQ_monotone [OF d r c f] d r c f q show ?thesis
    by simp
qed

text \<open>Once the index of the room under \<open>c\<close> is past the last question, it stays so, and no
  event sends \<^verbatim>\<open>question:start\<close> to the group \<open>c\<close>.\<close>

lemma step_finished:
  assumes "distinct (map fst rs)" and "\<not> creates c e" and "finished c rs"
  shows "finished c (rooms (step e rs))"
proof (cases "map_of (rooms (step e rs)) c")
  case None
  then show ?thesis by (simp add: finished_def)
next
  case (Some r')
  from step_room [OF assms(1,2) Some] assms(3) Some show ?thesis
    by (auto simp: finished_def split: if_splits)
qed

lemma step_no_start:
  assumes "finished c rs"
  shows "list_all (\<lambda>x. \<not> is_question_start c x) (effects (step e rs))"
proof (cases e)
  case (HostNextQuestion sid roomCode now)
  with assms show ?thesis
    by (auto simp: host_next_question_def finished_def silent_def Let_def split: option.splits)
next
  case (Disconnect sid)
  with no_start_disconnect_loop [of c sid rs] show ?thesis
    by (simp add: disconnect_eq)
qed (auto simp: host_create_room_def player_join_def player_answer_def endQuestion_def
      silent_def Let_def split: option.splits)

lemma trace_no_start:
  "distinct (map fst rs) \<Longrightarrow> list_all (\<lambda>e. \<not> creates c e) es \<Longrightarrow> finished c rs \<Longrightarrow>
   list_all (\<lambda>x. \<not> is_question_start c x) (trace es rs)"
proof (induction es arbitrary: rs)
  case Nil
  then show ?case by simp
next
  case (Cons e es)
  from Cons.prems have "finished c (rooms (step e rs))"
    by (simp add: step_finished)
  with Cons show ?case
    by (simp add: step_no_start step_distinct)
qed

text \<open>C6. When the host's \<^verbatim>\<open>host:next_question\<close> moves the index of the room \<open>c\<close> past the
  last question, it sends \<^verbatim>\<open>game:over\<close> with the leaderboard to the group \<open>c\<close>, and in
  every later run of events (none of which creates a new room under \<open>c\<close>) no event, so no
  \<^verbatim>\<open>host:next_question\<close>, sends a \<^verbatim>\<open>question:start\<close> to the group \<open>c\<close>.\<close>

theorem no_question_after_game_over:
  assumes "distinct (map fst rs)" and "map_of rs c = Some r"
    and "currentQ r + 1 \<ge> int (length (questions (quiz r)))"
    and "list_all (\<lambda>e. \<not> creates c e) es"
  shows "effects (host_next_question (hostId r) c now rs) =
      [Emit c (GameOver (makeLeaderboard (r\<lparr>currentQ := currentQ r + 1\<rparr>)))] \<and>
    list_all (\<lambda>x. \<not> is_question_start c x)
      (trace es (rooms (host_next_question (hostId r) c now rs)))"
proof -
  let ?o = "host_next_question (hostId r) c now rs"
  have o: "?o = \<lparr>fault = None, rooms = AList.update c (r\<lparr>currentQ := currentQ r + 1\<rparr>) rs,
      effects = [Emit c (GameOver (makeLeaderboard (r\<lparr>currentQ := currentQ r + 1\<rparr>)))]\<rparr>"
    using assms(2,3) by (simp add: host_next_question_def Let_def)
  have d: "distinct (map fst (rooms ?o))"
    using assms(1) by (simp add: o distinct_update)
  have f: "finished c (rooms ?o)"
    using assms(3) by (simp add: o finished_def update_conv')
  from trace_no_start [OF d assms(4) f] o show ?thesis
    by simp
qed

theorem no_question_after_game_over_witness:
  "distinct (map fst demo_rooms2) \<and> map_of demo_rooms2 ''AB12'' = Some demo_room2 \<and>
   hostId demo_room2 = ''h1'' \<and>
   currentQ demo_room2 + 1 \<ge> int (length (questions (quiz demo_room2))) \<and>
   list_all (\<lambda>e. \<not> creates ''AB12'' e)
     [HostNextQuestion ''h1'' ''AB12'' 50000, PlayerJoin ''s3'' ''AB12'' ''Cy'',
      HostNextQuestion ''h1'' ''AB12'' 60000] \<and>
   effects (host_next_question ''h1'' ''AB12'' 41000 demo_rooms2) =
     [Emit ''AB12'' (GameOver [(''Ann'', 1100), (''Bob'', 0)])] \<and>
   list_all (\<lambda>x. \<not> is_question_start ''AB12'' x)
     (trace [HostNextQuestion ''h1'' ''AB12'' 50000, PlayerJoin ''s3'' ''AB12'' ''Cy'',
             HostNextQuestion ''h1'' ''AB12'' 60000]
        (rooms (host_next_question ''h1'' ''AB12'' 41000 demo_rooms2)))"
proof -
  have d: "distinct (map fst demo_rooms2)"
    by (simp add: demo_rooms2_def)
  have r: "map_of demo_rooms2 ''AB12'' = Some demo_room2"
    by (simp add: demo_rooms2_def)
  have h: "hostId demo_room2 = ''h1''"
    by (simp add: demo_room2_def)
  have g: "currentQ demo_room2 + 1 \<ge> int (length (questions (quiz demo_room2)))"
    by (simp add: demo_room2_def demo_quiz_def)
  have c: "list_all (\<lambda>e. \<not> creates ''AB12'' e)
     [HostNextQuestion ''h1'' ''AB12'' 50000, PlayerJoin ''s3'' ''AB12'' ''Cy'',
      HostNextQuestion ''h1'' ''AB12'' 60000]"
    by simp
  have l: "makeLeaderboard (demo_room2\<lparr>currentQ := currentQ demo_room2 + 1\<rparr>) =
      [(''Ann'', 1100), (''Bob'', 0)]"
    by (simp add: makeLeaderboard_def js_sort_def demo_room2_def)
  from no_question_after_game_over [OF d r g c, of 41000] d r h g c l show ?thesis
    by simp
qed

subsection \<open>The end of a question\<close>

text \<open>The tables of the examples are built by the handlers from the empty table.\<close>

lemma demo_lobby_reachable:
  "run [HostCreateRoom ''h1'' demo_quiz (Some demo_token) ''AB12'',
        PlayerJoin ''s1'' ''AB12'' ''Ann''] [] = demo_lobby"
  by (simp add: host_create_room_def player_join_def demo_token_def demo_lobby_def
      demo_lobby_room_def)

text \<open>C2, as amended. \<^verbatim>\<open>endQuestion\<close> receives the room code only, not the question it was
  scheduled for. When the table has no room under the code, it does nothing: nothing is
  sent and nothing is thrown. When the table has a room under the code and the index of
  the room addresses a question of its quiz, it sends to the group of the room the
  \<^verbatim>\<open>correctIndices\<close> of that question, the current question of the room at the time of the
  firing, together with the leaderboard of the room, and changes nothing in the table.\<close>

theorem endQuestion_current_question:
  "(map_of rs c = None \<longrightarrow> endQuestion c rs = \<lparr>fault = None, rooms = rs, effects = []\<rparr>) \<and>
   (\<forall>room q. map_of rs c = Some room \<and>
        at_index (questions (quiz room)) (currentQ room) = Some q \<longrightarrow>
      endQuestion c rs =
        \<lparr>fault = None, rooms = rs,
         effects = [Emit c (QuestionEnd (correctIndices q) (makeLeaderboard room))]\<rparr>)"
  by (simp add: endQuestion_def silent_def)

theorem endQuestion_current_question_witness:
  "map_of [] ''AB12'' = (None :: room option) \<and>
   endQuestion ''AB12'' [] = \<lparr>fault = None, rooms = [], effects = []\<rparr> \<and>
   map_of demo_rooms ''AB12'' = Some demo_room \<and>
   at_index (questions (quiz demo_room)) (currentQ demo_room) = Some demo_q1 \<and>
   endQuestion ''AB12'' demo_rooms =
     \<lparr>fault = None, rooms = demo_rooms,
      effects = [Emit ''AB12'' (QuestionEnd (Some [1]) [(''Ann'', 1100), (''Bob'', 0)])]\<rparr>"
proof -
  have n: "map_of [] ''AB12'' = (None :: room option)"
    by simp
  have r: "map_of demo_rooms ''AB12'' = Some demo_room"
    by (simp add: demo_rooms_def)
  have q: "at_index (questions (quiz demo_room)) (currentQ demo_room) = Some demo_q1"
    by (simp add: demo_room_def demo_quiz_def at_index_def)
  have c: "correctIndices demo_q1 = Some [1]"
    by (simp add: demo_q1_def)
  have l: "makeLeaderboard demo_room = [(''Ann'', 1100), (''Bob'', 0)]"
    by (simp add: makeLeaderboard_def js_sort_def demo_room_def)
  from endQuestion_current_question [of "[]" "''AB12''"]
    endQuestion_current_question [of demo_rooms "''AB12''"] n r q c l
  show ?thesis by simp
qed

text \<open>The claim as stated fails when the host advances early. In the lobby the host starts
  question 0 at time 0, which schedules \<^verbatim>\<open>endQuestion\<close> for 20200; at 5000 the host
  starts question 1, open until 25000. When the first timer fires, question 0 is no longer
  the current question of the room, yet \<^verbatim>\<open>endQuestion\<close> sends \<^verbatim>\<open>question:end\<close>, with the
  correct choices \<open>[0, 2]\<close> of question 1.\<close>

theorem endQuestion_stale_counterexample:
  "effects (host_next_question ''h1'' ''AB12'' 0 demo_lobby) =
     [Emit ''AB12'' (QuestionStart 0 ''One?'' [''a'', ''b''] 20000 (Some False)),
      SetTimeout 20200 ''AB12''] \<and>
   run [HostNextQuestion ''h1'' ''AB12'' 0, HostNextQuestion ''h1'' ''AB12'' 5000] demo_lobby =
     [(''AB12'', demo_lobby_room\<lparr>currentQ := 1, endsAt := Some 25000\<rparr>)] \<and>
   endQuestion ''AB12'' [(''AB12'', demo_lobby_room\<lparr>currentQ := 1, endsAt := Some 25000\<rparr>)] =
     \<lparr>fault = None,
      rooms = [(''AB12'', demo_lobby_room\<lparr>currentQ := 1, endsAt := Some 25000\<rparr>)],
      effects = [Emit ''AB12'' (QuestionEnd (Some [0, 2]) [(''Ann'', 0)])]\<rparr>"
  by (simp add: host_next_question_def endQuestion_def demo_lobby_def demo_lobby_room_def
      demo_quiz_def demo_q1_def demo_q2_def at_index_def limitSec_def hasMultipleAnswers_def
      makeLeaderboard_def js_sort_def Let_def)

subsection \<open>Answers outside a question\<close>

text \<open>C4. The claim asks that a \<^verbatim>\<open>player:answer\<close> before the first question (index \<open>-1\<close>)
  or after the last one does not fault. The handler reads \<^verbatim>\<open>q.correctIndices\<close> of the
  \<^verbatim>\<open>undefined\<close> question \<^verbatim>\<open>questions[currentQ]\<close> for every player who has not answered, and
  throws. In the lobby Ann answers before any question has started: the handler marks her
  as answered and throws. In the second example the host ends the game with
  \<^verbatim>\<open>host:next_question\<close> and Bob, who has not answered the last question, answers: again
  the handler marks him as answered and throws. No score changes and nothing is sent.\<close>

theorem player_answer_without_question_faults:
  "player_answer ''s1'' ''AB12'' (Index 1) 1000 demo_lobby =
     \<lparr>fault = Some TypeError,
      rooms = [(''AB12'', demo_lobby_room\<lparr>players :=
        [(''s1'', \<lparr>name = ''Ann'', score = 0, answered = True\<rparr>)]\<rparr>)],
      effects = []\<rparr> \<and>
   host_next_question ''h1'' ''AB12'' 41000 demo_rooms2 =
     \<lparr>fault = None, rooms = [(''AB12'', demo_room2\<lparr>currentQ := 2\<rparr>)],
      effects = [Emit ''AB12'' (GameOver [(''Ann'', 1100), (''Bob'', 0)])]\<rparr> \<and>
   player_answer ''s2'' ''AB12'' (Index 1) 42000 [(''AB12'', demo_room2\<lparr>currentQ := 2\<rparr>)] =
     \<lparr>fault = Some TypeError,
      rooms = [(''AB12'', demo_room2\<lparr>currentQ := 2, players :=
        [(''s1'', \<lparr>name = ''Ann'', score = 1100, answered = False\<rparr>),
         (''s2'', \<lparr>name = ''Bob'', score = 0, answered = True\<rparr>)]\<rparr>)],
      effects = []\<rparr>"
  by (simp add: player_answer_def host_next_question_def demo_lobby_def demo_lobby_room_def
      demo_rooms2_def demo_room2_def demo_quiz_def at_index_def makeLeaderboard_def
      js_sort_def Let_def)

end
